theory Spec2Isabelle
  imports Complex_Main
begin

section \<open>labchat.edgetech: the DewMaster driver\<close>

text \<open>
  A shallow embedding of \<^verbatim>\<open>src/labchat/edgetech.py\<close>. Text is modelled as
  \<^typ>\<open>string\<close>: a list of characters with code points 0..255. On this range Python's
  \<^verbatim>\<open>\d\<close> is the ASCII digits and \<^verbatim>\<open>\s\<close> (and \<^verbatim>\<open>str.strip\<close>) is the set
  \<open>is_space\<close> below. Exceptions are values of a sum type, warnings are returned as a list in
  the order in which \<^verbatim>\<open>warnings.warn\<close> is called, and the clock is an argument.
\<close>

subsection \<open>Characters and text\<close>

definition CR :: char where "CR = CHR 0x0D"
definition LF :: char where "LF = CHR 0x0A"

definition crlf :: string where "crlf = [CR, LF]"

definition is_digit :: "char \<Rightarrow> bool" where
  "is_digit c = (of_char CHR ''0'' \<le> (of_char c :: nat) \<and> (of_char c :: nat) \<le> of_char CHR ''9'')"

definition is_upper :: "char \<Rightarrow> bool" where
  "is_upper c = (of_char CHR ''A'' \<le> (of_char c :: nat) \<and> (of_char c :: nat) \<le> of_char CHR ''Z'')"

text \<open>Python's whitespace on code points below 256: TAB, LF, VT, FF, CR, FS, GS, RS, US,
  SPACE, NEL and NBSP.\<close>

definition is_space :: "char \<Rightarrow> bool" where
  "is_space c = (of_char c \<in> {9, 10, 11, 12, 13, 28, 29, 30, 31, 32, 133, 160 :: nat})"

definition is_numch :: "char \<Rightarrow> bool" where
  "is_numch c = (c = CHR ''-'' \<or> is_digit c \<or> c = CHR ''.'')"

text \<open>\<^verbatim>\<open>str.strip()\<close>: drop leading and trailing whitespace.\<close>

definition strip :: "string \<Rightarrow> string" where
  "strip s = rev (dropWhile is_space (rev (dropWhile is_space s)))"

text \<open>\<^verbatim>\<open>s.split('\r\n')\<close>: the pieces between the non-overlapping occurrences of the
  separator, found from the left; always at least one piece.\<close>

definition cons_hd :: "char \<Rightarrow> string list \<Rightarrow> string list" where
  "cons_hd c ps = (case ps of [] \<Rightarrow> [[c]] | p # ps' \<Rightarrow> (c # p) # ps')"

fun split_crlf :: "string \<Rightarrow> string list" where
  "split_crlf [] = [[]]"
| "split_crlf [a] = [[a]]"
| "split_crlf (a # b # cs) =
     (if a = CR \<and> b = LF then [] # split_crlf cs else cons_hd a (split_crlf (b # cs)))"

subsection \<open>Regular expressions with Python's backtracking order\<close>

text \<open>
  The patterns of the source are written in this syntax tree. \<open>rmatch r (s, g)\<close> lists,
  in the order in which Python's backtracking matcher tries them, the ways \<open>r\<close> can match a
  prefix of \<open>s\<close>: each as the rest of the input with the groups captured so far. Repetition
  is greedy, alternation prefers the left branch, and \<open>Eos\<close> is \<^verbatim>\<open>$\<close> (the end of the
  text, or just before a line feed that ends it).
\<close>

datatype regex =
    Eps
  | Lit char
  | Cls "char \<Rightarrow> bool"
  | Cat regex regex
  | Alt regex regex
  | Star regex
  | Grp nat regex
  | Eos

type_synonym caps = "(nat \<times> string) list"

function rmatch :: "regex \<Rightarrow> string \<times> caps \<Rightarrow> (string \<times> caps) list" where
  "rmatch Eps st = [st]"
| "rmatch (Lit c) st =
     (case fst st of [] \<Rightarrow> [] | x # xs \<Rightarrow> if x = c then [(xs, snd st)] else [])"
| "rmatch (Cls p) st =
     (case fst st of [] \<Rightarrow> [] | x # xs \<Rightarrow> if p x then [(xs, snd st)] else [])"
| "rmatch (Cat a b) st = concat (map (rmatch b) (rmatch a st))"
| "rmatch (Alt a b) st = rmatch a st @ rmatch b st"
| "rmatch (Star a) st =
     concat (map (\<lambda>st'. if length (fst st') < length (fst st) then rmatch (Star a) st' else [])
                 (rmatch a st)) @ [st]"
| "rmatch (Grp n a) st =
     map (\<lambda>st'. (fst st', (n, take (length (fst st) - length (fst st')) (fst st)) # snd st'))
         (rmatch a st)"
| "rmatch Eos st = (if fst st = [] \<or> fst st = [LF] then [st] else [])"
  by pat_completeness auto
termination
  by (relation "(\<lambda>(r, st). size r) <*mlex*> measure (\<lambda>(r, st). length (fst st))")
     (auto simp: wf_mlex mlex_less mlex_leq)

definition Plus :: "regex \<Rightarrow> regex" where
  "Plus a = Cat a (Star a)"

definition Opt :: "regex \<Rightarrow> regex" where
  "Opt a = Alt a Eps"

definition Rep3 :: "regex \<Rightarrow> regex" where
  "Rep3 a = Cat a (Cat a a)"

fun cats :: "regex list \<Rightarrow> regex" where
  "cats [] = Eps"
| "cats [a] = a"
| "cats (a # as) = Cat a (cats as)"

definition lits :: "string \<Rightarrow> regex" where
  "lits s = cats (map Lit s)"

text \<open>A match object: the matched text (\<^verbatim>\<open>group(0)\<close>) and the captured groups.\<close>

type_synonym rematch = "string \<times> caps"

definition group :: "rematch \<Rightarrow> nat \<Rightarrow> string" where
  "group m n = (if n = 0 then fst m else case map_of (snd m) n of None \<Rightarrow> [] | Some t \<Rightarrow> t)"

text \<open>\<^verbatim>\<open>re.match\<close>: the first way to match at the start of the text, with what is left.\<close>

definition re_match :: "regex \<Rightarrow> string \<Rightarrow> (rematch \<times> string) option" where
  "re_match r s =
     (case rmatch r (s, []) of
        [] \<Rightarrow> None
      | st # _ \<Rightarrow> Some ((take (length s - length (fst st)) s, snd st), fst st))"

text \<open>\<^verbatim>\<open>re.search\<close>: the match at the leftmost position that has one.\<close>

fun re_search :: "regex \<Rightarrow> string \<Rightarrow> rematch option" where
  "re_search r [] = map_option fst (re_match r [])"
| "re_search r (c # cs) =
     (case re_match r (c # cs) of Some m \<Rightarrow> Some (fst m) | None \<Rightarrow> re_search r cs)"

text \<open>\<^verbatim>\<open>re.findall\<close>: the matches from the left, each search starting where the previous
  match ended (one character further after an empty match).\<close>

function re_findall :: "regex \<Rightarrow> string \<Rightarrow> rematch list" where
  "re_findall r [] = (case re_match r [] of None \<Rightarrow> [] | Some m \<Rightarrow> [fst m])"
| "re_findall r (c # cs) =
     (case re_match r (c # cs) of
        None \<Rightarrow> re_findall r cs
      | Some m \<Rightarrow>
          fst m # (if length (snd m) < length (c # cs) then re_findall r (snd m)
                   else re_findall r cs))"
  by pat_completeness auto
termination
  by (relation "measure (\<lambda>(r, s). length s)") auto

subsection \<open>Exceptions and warnings\<close>

text \<open>The exceptions the module can raise, by Python class and by the place that raises.\<close>

datatype value_error =
    NoData              \<comment> \<open>\<^verbatim>\<open>'{0} does not appear to contain any data'\<close>\<close>
  | TimeData            \<comment> \<open>raised inside \<^verbatim>\<open>datetime.strptime\<close>\<close>
  | FloatText           \<comment> \<open>raised inside \<^verbatim>\<open>float\<close>\<close>
  | AvgRange            \<comment> \<open>\<^verbatim>\<open>'avg_num should be between 1 and 16'\<close>\<close>
  | IntervalRange       \<comment> \<open>\<^verbatim>\<open>'interval should be greater than zero'\<close>\<close>

datatype io_error =
    NoResponse          \<comment> \<open>\<^verbatim>\<open>'unable to get data from instrument'\<close>\<close>
  | DataStarved         \<comment> \<open>\<^verbatim>\<open>'No data received for 4 tries in a row'\<close>\<close>

datatype error =
    ValueError value_error
  | IOError io_error
  | UnicodeDecodeError

datatype warning =
    W_timed_out               \<comment> \<open>\<^verbatim>\<open>'read attempt timed out'\<close>\<close>
  | W_multiple_lines          \<comment> \<open>\<^verbatim>\<open>'data_str has multiple lines, using the first recognized data line'\<close>\<close>
  | W_local_time              \<comment> \<open>\<^verbatim>\<open>'Unable to identify timestamp, using local time'\<close>\<close>
  | W_no_status               \<comment> \<open>\<^verbatim>\<open>'Unable to identify status of measurement'\<close>\<close>
  | W_status string           \<comment> \<open>\<^verbatim>\<open>'Status is {0}, data may be inaccurate'\<close>\<close>
  | W_average_unset           \<comment> \<open>\<^verbatim>\<open>'Average value may not have been set properly'\<close>\<close>
  | W_average_differs string int
  | W_interval_unset          \<comment> \<open>\<^verbatim>\<open>'Interval may not have been set properly'\<close>\<close>
  | W_interval_differs string int

subsection \<open>Numbers and dates of the Python library\<close>

definition digit_val :: "char \<Rightarrow> nat" where
  "digit_val c = of_char c - of_char CHR ''0''"

text \<open>\<^verbatim>\<open>int(t)\<close> for a text of decimal digits.\<close>

definition digits_val :: "string \<Rightarrow> nat" where
  "digits_val t = foldl (\<lambda>n c. 10 * n + digit_val c) 0 t"

text \<open>
  \<^verbatim>\<open>float(t)\<close> for a text over the characters \<^verbatim>\<open>[-\d\.]\<close>, the only texts the source
  passes to it: an optional minus sign, then digits with at most one point and at least one
  digit. The value is the decimal number the text denotes; the rounding to a binary64 is not
  modelled.
\<close>

definition unsigned_float :: "string \<Rightarrow> error + rat" where
  "unsigned_float u =
     (let ip = takeWhile is_digit u; r = dropWhile is_digit u in
      case r of
        [] \<Rightarrow> if ip = [] then Inl (ValueError FloatText) else Inr (of_nat (digits_val ip))
      | d # fp \<Rightarrow>
          if d = CHR ''.'' \<and> list_all is_digit fp \<and> (ip \<noteq> [] \<or> fp \<noteq> [])
          then Inr (of_nat (digits_val (ip @ fp)) / 10 ^ length fp)
          else Inl (ValueError FloatText))"

definition py_float :: "string \<Rightarrow> error + rat" where
  "py_float t =
     (case t of
        [] \<Rightarrow> Inl (ValueError FloatText)
      | c # cs \<Rightarrow>
          if c = CHR ''-'' then map_sum id uminus (unsigned_float cs) else unsigned_float t)"

record datetime =
  year :: nat
  month :: nat
  day :: nat
  hour :: nat
  minute :: nat
  second :: nat
  microsecond :: nat

definition is_leap :: "nat \<Rightarrow> bool" where
  "is_leap y = (y mod 4 = 0 \<and> (y mod 100 \<noteq> 0 \<or> y mod 400 = 0))"

definition days_in_month :: "nat \<Rightarrow> nat \<Rightarrow> nat" where
  "days_in_month y m =
     (if m = 2 then (if is_leap y then 29 else 28)
      else if m \<in> {4, 6, 9, 11} then 30 else 31)"

definition rng :: "char \<Rightarrow> char \<Rightarrow> regex" where
  "rng a b = Cls (\<lambda>c. (of_char a :: nat) \<le> of_char c \<and> (of_char c :: nat) \<le> of_char b)"

fun alts :: "regex list \<Rightarrow> regex" where
  "alts [] = Eps"
| "alts [a] = a"
| "alts (a # as) = Alt a (alts as)"

text \<open>
  \<^verbatim>\<open>datetime.strptime(s, "%m/%d/%y %H:%M:%S")\<close> as CPython's \<^verbatim>\<open>_strptime\<close> does it: the
  format becomes a regular expression with one group per directive (whitespace in the format
  is \<^verbatim>\<open>\s+\<close>), which must match at the start of the text and leave nothing; a two-digit
  year up to 68 is in 2000, a later one in 1900; the date must then exist. Groups 1 to 6 are
  \<^verbatim>\<open>m d y H M S\<close>.
\<close>

definition strptime_re :: regex where
  "strptime_re = cats
     [Grp 1 (alts [Cat (Lit CHR ''1'') (rng CHR ''0'' CHR ''2''),
                   Cat (Lit CHR ''0'') (rng CHR ''1'' CHR ''9''),
                   rng CHR ''1'' CHR ''9'']),
      Lit CHR ''/'',
      Grp 2 (alts [Cat (Lit CHR ''3'') (rng CHR ''0'' CHR ''1''),
                   Cat (rng CHR ''1'' CHR ''2'') (Cls is_digit),
                   Cat (Lit CHR ''0'') (rng CHR ''1'' CHR ''9''),
                   rng CHR ''1'' CHR ''9'',
                   Cat (Lit CHR '' '') (rng CHR ''1'' CHR ''9'')]),
      Lit CHR ''/'',
      Grp 3 (Cat (Cls is_digit) (Cls is_digit)),
      Plus (Cls is_space),
      Grp 4 (alts [Cat (Lit CHR ''2'') (rng CHR ''0'' CHR ''3''),
                   Cat (rng CHR ''0'' CHR ''1'') (Cls is_digit),
                   Cls is_digit]),
      Lit CHR '':'',
      Grp 5 (alts [Cat (rng CHR ''0'' CHR ''5'') (Cls is_digit), Cls is_digit]),
      Lit CHR '':'',
      Grp 6 (alts [Cat (Lit CHR ''6'') (rng CHR ''0'' CHR ''1''),
                   Cat (rng CHR ''0'' CHR ''5'') (Cls is_digit),
                   Cls is_digit])]"

definition strptime :: "string \<Rightarrow> error + datetime" where
  "strptime s =
     (case re_match strptime_re s of
        None \<Rightarrow> Inl (ValueError TimeData)
      | Some (m, rest) \<Rightarrow>
          if rest \<noteq> [] then Inl (ValueError TimeData)
          else
            let y = digits_val (group m 3);
                yr = (if y \<le> 68 then y + 2000 else y + 1900);
                mo = digits_val (group m 1);
                d = digits_val (dropWhile is_space (group m 2));
                s = digits_val (group m 6)
            in if days_in_month yr mo < d \<or> 59 < s then Inl (ValueError TimeData)
               else Inr \<lparr>year = yr, month = mo, day = d, hour = digits_val (group m 4),
                         minute = digits_val (group m 5), second = s, microsecond = 0\<rparr>)"

subsection \<open>The measurement parser: \<^verbatim>\<open>DewMaster._parse_data\<close>\<close>

text \<open>The tuple \<^verbatim>\<open>(dt, measurements, data, status)\<close> the parser returns.\<close>

record reading =
  dt :: datetime
  measurements :: "string list"
  data :: "rat list"
  status :: string

text \<open>\<^verbatim>\<open>r"([A-Z]+)\s+=\s+([-\d\.]+)"\<close>\<close>

definition token_re :: regex where
  "token_re = cats [Grp 1 (Plus (Cls is_upper)), Plus (Cls is_space), Lit CHR ''='',
                    Plus (Cls is_space), Grp 2 (Plus (Cls is_numch))]"

text \<open>\<^verbatim>\<open>r"(\d\d/?){3}\s+(\d\d:?){3}"\<close>\<close>

definition timestamp_re :: regex where
  "timestamp_re = cats
     [Rep3 (Grp 1 (cats [Cls is_digit, Cls is_digit, Opt (Lit CHR ''/'')])),
      Plus (Cls is_space),
      Rep3 (Grp 2 (cats [Cls is_digit, Cls is_digit, Opt (Lit CHR '':'')]))]"

text \<open>\<^verbatim>\<open>r"([A-Z]+)\s*$"\<close>\<close>

definition status_re :: regex where
  "status_re = cats [Grp 1 (Plus (Cls is_upper)), Star (Cls is_space), Eos]"

text \<open>
  The \<^verbatim>\<open>for data_n in data_str.split('\r\n')\<close> loop with its \<^verbatim>\<open>else\<close> branch: the
  test inside the loop searches \<^verbatim>\<open>data_str\<close>, the whole text, and the first segment for
  which it holds is taken; \<open>None\<close> is the \<^verbatim>\<open>else\<close> branch, which raises.
\<close>

fun select_line :: "string \<Rightarrow> string list \<Rightarrow> string option" where
  "select_line data_str [] = None"
| "select_line data_str (data_n # rest) =
     (if re_search token_re data_str \<noteq> None then Some data_n
      else select_line data_str rest)"

text \<open>The block "Check for multiple lines".\<close>

definition check_lines :: "string \<Rightarrow> (error + string) \<times> warning list" where
  "check_lines data_str =
     (if re_search (lits crlf) data_str \<noteq> None then
        (case select_line data_str (split_crlf data_str) of
           None \<Rightarrow> (Inl (ValueError NoData), [W_multiple_lines])
         | Some data_n \<Rightarrow> (Inr data_n, [W_multiple_lines]))
      else (Inr data_str, []))"

text \<open>The block "Create datetime object"; \<open>now\<close> is \<^verbatim>\<open>datetime.fromtimestamp(time())\<close>.\<close>

definition create_dt :: "datetime \<Rightarrow> string \<Rightarrow> (error + datetime) \<times> warning list" where
  "create_dt now data_str =
     (case re_search timestamp_re data_str of
        None \<Rightarrow> (Inr now, [W_local_time])
      | Some m \<Rightarrow> (strptime (group m 0), []))"

text \<open>The loop \<^verbatim>\<open>for m in match\<close> that fills \<^verbatim>\<open>data\<close>; it stops at the first text that
  \<^verbatim>\<open>float\<close> rejects.\<close>

fun floats :: "string list \<Rightarrow> error + rat list" where
  "floats [] = Inr []"
| "floats (t # ts) =
     (case py_float t of
        Inl e \<Rightarrow> Inl e
      | Inr v \<Rightarrow> (case floats ts of Inl e \<Rightarrow> Inl e | Inr vs \<Rightarrow> Inr (v # vs)))"

text \<open>The block "Check status".\<close>

definition check_status :: "string \<Rightarrow> string \<times> warning list" where
  "check_status data_str =
     (case re_search status_re data_str of
        None \<Rightarrow> (''UNKNOWN'', [W_no_status])
      | Some m \<Rightarrow>
          (group m 1, if group m 1 = ''SERVOLOCK'' then [] else [W_status (group m 1)]))"

text \<open>
  \<^verbatim>\<open>_parse_data(data_str)\<close>: the result or the exception, and the warnings issued up to
  there.
\<close>

definition parse_data :: "datetime \<Rightarrow> string \<Rightarrow> (error + reading) \<times> warning list" where
  "parse_data now data_str0 =
     (case check_lines data_str0 of
        (Inl e, w1) \<Rightarrow> (Inl e, w1)
      | (Inr data_str, w1) \<Rightarrow>
          (case create_dt now data_str of
             (Inl e, w2) \<Rightarrow> (Inl e, w1 @ w2)
           | (Inr t, w2) \<Rightarrow>
               if re_findall token_re data_str = [] then (Inl (ValueError NoData), w1 @ w2)
               else
                 (case floats (map (\<lambda>m. group m 2) (re_findall token_re data_str)) of
                    Inl e \<Rightarrow> (Inl e, w1 @ w2)
                  | Inr vs \<Rightarrow>
                      (Inr \<lparr>dt = t,
                             measurements = map (\<lambda>m. group m 1) (re_findall token_re data_str),
                             data = vs, status = fst (check_status data_str)\<rparr>,
                       w1 @ w2 @ snd (check_status data_str)))))"

subsection \<open>The serial stream\<close>

text \<open>
  The object \<^verbatim>\<open>self.device\<close> with what surrounds it: the bytes received and not yet read
  (\<^verbatim>\<open>in_waiting\<close> is their number), the bytes that will arrive during each coming
  \<^verbatim>\<open>sleep(0.05)\<close>, the clock \<^verbatim>\<open>time()\<close> and \<^verbatim>\<open>device.timeout\<close> in milliseconds, the
  warnings issued, and a log of the operations performed on the stream, oldest first. The
  log also records each entry to \<^verbatim>\<open>DewMaster.read\<close>. Time passes only in \<^verbatim>\<open>sleep\<close>.
\<close>

datatype event =
    DevWrite "char list"          \<comment> \<open>\<^verbatim>\<open>device.write(bytes)\<close>\<close>
  | DevInWaiting nat              \<comment> \<open>\<^verbatim>\<open>device.in_waiting\<close> and the count it gave\<close>
  | DevRead nat "char list"       \<comment> \<open>\<^verbatim>\<open>device.read(n)\<close> and the bytes it gave\<close>
  | CallRead                      \<comment> \<open>entry to \<^verbatim>\<open>DewMaster.read\<close>\<close>

record device =
  in_buf :: "char list"
  arriving :: "char list list"
  clock :: nat
  timeout :: nat
  warned :: "warning list"
  log :: "event list"

definition dev_write :: "char list \<Rightarrow> device \<Rightarrow> device" where
  "dev_write bs d = d\<lparr>log := log d @ [DevWrite bs]\<rparr>"

definition dev_in_waiting :: "device \<Rightarrow> nat \<times> device" where
  "dev_in_waiting d = (length (in_buf d), d\<lparr>log := log d @ [DevInWaiting (length (in_buf d))]\<rparr>)"

definition dev_read :: "nat \<Rightarrow> device \<Rightarrow> char list \<times> device" where
  "dev_read n d =
     (take n (in_buf d),
      d\<lparr>in_buf := drop n (in_buf d), log := log d @ [DevRead n (take n (in_buf d))]\<rparr>)"

definition sleep50 :: "device \<Rightarrow> device" where
  "sleep50 d =
     d\<lparr>clock := clock d + 50,
       in_buf := in_buf d @ (case arriving d of [] \<Rightarrow> [] | bs # _ \<Rightarrow> bs),
       arriving := tl (arriving d)\<rparr>"

definition warn :: "warning \<Rightarrow> device \<Rightarrow> device" where
  "warn w d = d\<lparr>warned := warned d @ [w]\<rparr>"

subsection \<open>UTF-8\<close>

text \<open>\<^verbatim>\<open>char.encode(encoding='utf-8')\<close> for a character with a code point below 256.\<close>

definition encode_char :: "char \<Rightarrow> char list" where
  "encode_char c =
     (if (of_char c :: nat) < 128 then [c]
      else [char_of (192 + (of_char c :: nat) div 64), char_of (128 + (of_char c :: nat) mod 64)])"

definition cont :: "nat \<Rightarrow> bool" where
  "cont b = (128 \<le> b \<and> b \<le> 191)"

text \<open>
  The strict UTF-8 decoder on byte values, giving code points: no overlong forms, no
  surrogates, nothing above U+10FFFF. \<open>None\<close> is \<^verbatim>\<open>UnicodeDecodeError\<close>.
\<close>

fun utf8_decode :: "nat list \<Rightarrow> nat list option" where
  "utf8_decode [] = Some []"
| "utf8_decode (b # bs) =
     (if b < 128 then map_option ((#) b) (utf8_decode bs)
      else if 194 \<le> b \<and> b \<le> 223 then
        (case bs of
           c1 # r \<Rightarrow>
             if cont c1 then map_option ((#) ((b - 192) * 64 + (c1 - 128))) (utf8_decode r)
             else None
         | _ \<Rightarrow> None)
      else if 224 \<le> b \<and> b \<le> 239 then
        (case bs of
           c1 # c2 # r \<Rightarrow>
             if cont c1 \<and> cont c2 \<and> (b = 224 \<longrightarrow> 160 \<le> c1) \<and> (b = 237 \<longrightarrow> c1 \<le> 159)
             then map_option ((#) ((b - 224) * 4096 + (c1 - 128) * 64 + (c2 - 128)))
                    (utf8_decode r)
             else None
         | _ \<Rightarrow> None)
      else if 240 \<le> b \<and> b \<le> 244 then
        (case bs of
           c1 # c2 # c3 # r \<Rightarrow>
             if cont c1 \<and> cont c2 \<and> cont c3 \<and> (b = 240 \<longrightarrow> 144 \<le> c1) \<and> (b = 244 \<longrightarrow> c1 \<le> 143)
             then map_option
                    ((#) ((b - 240) * 262144 + (c1 - 128) * 4096 + (c2 - 128) * 64 + (c3 - 128)))
                    (utf8_decode r)
             else None
         | _ \<Rightarrow> None)
      else None)"

text \<open>
  \<^verbatim>\<open>out.decode(encoding='utf-8')\<close> as a text of the model. \<open>BeyondLatin1\<close> is not an
  exception of the program: it marks a frame that decodes to a code point above 255, which
  \<^typ>\<open>string\<close> cannot hold, so that nothing is stated about such a frame.
\<close>

datatype failure = Raised error | BeyondLatin1

definition decode :: "char list \<Rightarrow> failure + string" where
  "decode bs =
     (case utf8_decode (map of_char bs) of
        None \<Rightarrow> Inl (Raised UnicodeDecodeError)
      | Some cps \<Rightarrow>
          if list_all (\<lambda>cp. cp < 256) cps then Inr (map char_of cps) else Inl BeyondLatin1)"

subsection \<open>The framed transport: \<^verbatim>\<open>flush\<close>, \<^verbatim>\<open>read\<close>, \<^verbatim>\<open>write\<close>\<close>


text \<open>
  The \<^verbatim>\<open>while t_now < t_stop\<close> loop of \<^verbatim>\<open>read\<close>; \<^verbatim>\<open>t_now\<close> is the clock. \<open>Some out\<close> is
  the exit by \<^verbatim>\<open>break\<close>, \<open>None\<close> the \<^verbatim>\<open>else\<close> branch of the loop.
\<close>

function read_loop :: "nat \<Rightarrow> nat \<Rightarrow> device \<Rightarrow> char list option \<times> device" where
  "read_loop t_stop last_val d =
     (if clock d < t_stop then
        (if 0 < fst (dev_in_waiting d) \<and> fst (dev_in_waiting d) = last_val
         then (Some (fst (dev_read (fst (dev_in_waiting d)) (snd (dev_in_waiting d)))),
               snd (dev_read (fst (dev_in_waiting d)) (snd (dev_in_waiting d))))
         else read_loop t_stop (fst (dev_in_waiting d)) (sleep50 (snd (dev_in_waiting d))))
      else (None, d))"
  by pat_completeness auto
termination
  by (relation "measure (\<lambda>(t_stop, last_val, d). t_stop - clock d)")
     (auto simp: sleep50_def dev_in_waiting_def)

declare read_loop.simps [simp del]

definition read :: "device \<Rightarrow> (failure + string) \<times> device" where
  "read d =
     (case read_loop (clock d + timeout d) 0 (d\<lparr>log := log d @ [CallRead]\<rparr>) of
        (None, d') \<Rightarrow> (map_sum id strip (decode []), warn W_timed_out d')
      | (Some out, d') \<Rightarrow> (map_sum id strip (decode out), d'))"

text \<open>The \<^verbatim>\<open>for char in command\<close> loop of \<^verbatim>\<open>write\<close>; an exception in \<^verbatim>\<open>read\<close> ends it.\<close>

fun write_chars :: "string \<Rightarrow> device \<Rightarrow> (failure + unit) \<times> device" where
  "write_chars [] d = (Inr (), d)"
| "write_chars (c # cs) d =
     (case read (dev_write (encode_char c) d) of
        (Inl e, d') \<Rightarrow> (Inl e, d')
      | (Inr echo, d') \<Rightarrow> write_chars cs d')"

text \<open>\<^verbatim>\<open>DewMaster.write\<close>.\<close>

definition write_command :: "string \<Rightarrow> device \<Rightarrow> (failure + unit) \<times> device" where
  "write_command command d =
     (case write_chars command d of
        (Inl e, d') \<Rightarrow> (Inl e, d')
      | (Inr u, d') \<Rightarrow> (Inr (), dev_write crlf d'))"

subsection \<open>The command helpers \<^verbatim>\<open>set_average\<close> and \<^verbatim>\<open>set_output_interval\<close>\<close>









subsection \<open>The polling logger: the two loops of \<^verbatim>\<open>log_data\<close>\<close>

text \<open>
  One polling cycle receives the text that \<^verbatim>\<open>self.read()\<close> returned, the local time that
  the parser falls back to, and the value of \<^verbatim>\<open>time()\<close> at the end of the cycle. The files
  written from the collected data and the warnings of the parser are not part of the model.
\<close>

record tick =
  frame :: string
  local_time :: datetime
  time_after :: nat

datatype stop = Failed error | Deadline

datatype phase = Priming | Collecting | Stopped stop

record session =
  history :: "reading list"
  tries :: nat
  phase :: phase

text \<open>
  \<^verbatim>\<open>for d in raw_data: try: data.append(self._parse_data(d)) except ValueError: pass\<close>:
  the readings of the segments that parse, in order; an exception of another class would
  leave the loop.
\<close>

fun parse_all :: "datetime \<Rightarrow> string list \<Rightarrow> error + reading list" where
  "parse_all now [] = Inr []"
| "parse_all now (d # ds) =
     (case fst (parse_data now d) of
        Inr r \<Rightarrow> map_sum id ((#) r) (parse_all now ds)
      | Inl (ValueError v) \<Rightarrow> parse_all now ds
      | Inl e \<Rightarrow> Inl e)"

definition poll :: "tick \<Rightarrow> error + reading list" where
  "poll tk = parse_all (local_time tk) (split_crlf (frame tk))"

text \<open>One iteration of \<^verbatim>\<open>while not data\<close>.\<close>

definition priming_cycle :: "tick \<Rightarrow> session \<Rightarrow> session" where
  "priming_cycle tk st =
     (case poll tk of
        Inl e \<Rightarrow> st\<lparr>phase := Stopped (Failed e)\<rparr>
      | Inr rs \<Rightarrow>
          if tries st > 2
          then st\<lparr>history := history st @ rs, phase := Stopped (Failed (IOError NoResponse))\<rparr>
          else st\<lparr>history := history st @ rs, tries := tries st + 1,
                  phase := (if history st @ rs = [] then Priming else Collecting)\<rparr>)"

text \<open>The end of an iteration of \<^verbatim>\<open>while go_cond\<close>; \<open>t_stop\<close> is \<open>None\<close> when
  \<^verbatim>\<open>total\<close> is.\<close>

definition go_cond :: "nat option \<Rightarrow> tick \<Rightarrow> session \<Rightarrow> session" where
  "go_cond t_stop tk st =
     (case t_stop of
        None \<Rightarrow> st
      | Some t \<Rightarrow> if time_after tk < t then st else st\<lparr>phase := Stopped Deadline\<rparr>)"

text \<open>One iteration of \<^verbatim>\<open>while go_cond\<close>.\<close>

definition collecting_cycle :: "nat option \<Rightarrow> tick \<Rightarrow> session \<Rightarrow> session" where
  "collecting_cycle t_stop tk st =
     (case poll tk of
        Inl e \<Rightarrow> st\<lparr>phase := Stopped (Failed e)\<rparr>
      | Inr data_n \<Rightarrow>
          if data_n \<noteq> [] then go_cond t_stop tk (st\<lparr>tries := 0, history := history st @ data_n\<rparr>)
          else if tries st > 3 then st\<lparr>phase := Stopped (Failed (IOError DataStarved))\<rparr>
          else go_cond t_stop tk (st\<lparr>tries := tries st + 1\<rparr>))"

definition cycle :: "nat option \<Rightarrow> session \<Rightarrow> tick \<Rightarrow> session" where
  "cycle t_stop st tk =
     (case phase st of
        Priming \<Rightarrow> priming_cycle tk st
      | Collecting \<Rightarrow> collecting_cycle t_stop tk st
      | Stopped why \<Rightarrow> st)"

text \<open>The state on entry to the first loop: \<^verbatim>\<open>data, tries = [], 0\<close>.\<close>

definition start :: session where
  "start = \<lparr>history = [], tries = 0, phase = Priming\<rparr>"

text \<open>The session after the given polling cycles.\<close>

definition log_data :: "nat option \<Rightarrow> tick list \<Rightarrow> session" where
  "log_data t_stop ticks = foldl (cycle t_stop) start ticks"

subsection \<open>Two clock readings for the examples\<close>

definition clock_a :: datetime where
  "clock_a = \<lparr>year = 2024, month = 3, day = 9, hour = 10, minute = 0, second = 0,
              microsecond = 0\<rparr>"

definition clock_b :: datetime where
  "clock_b = \<lparr>year = 2024, month = 3, day = 9, hour = 10, minute = 0, second = 1,
              microsecond = 0\<rparr>"

subsection \<open>Polling cycles for the examples\<close>

text \<open>A cycle in which \<^verbatim>\<open>read\<close> returned nothing, and one in which it returned a data line.\<close>

definition quiet_tick :: tick where
  "quiet_tick = \<lparr>frame = [], local_time = clock_a, time_after = 0\<rparr>"

definition data_tick :: tick where
  "data_tick = \<lparr>frame = ''08/15/22 14:30:05  DEWPT = -40.25  SERVOLOCK'',
                 local_time = clock_a, time_after = 0\<rparr>"

subsection \<open>Runs of empty cycles\<close>


subsection \<open>What a call of \<^verbatim>\<open>read\<close> sees\<close>

text \<open>
  The bytes buffered at the \<open>k\<close>-th look of a \<^verbatim>\<open>read\<close> that starts in \<open>d\<close> (the looks are
  50 ms apart and nothing is taken from the buffer before the loop ends).
\<close>

definition received :: "device \<Rightarrow> nat \<Rightarrow> char list" where
  "received d k = in_buf d @ concat (take k (arriving d))"

text \<open>The test of the loop at the \<open>k\<close>-th look: a count above zero that equals the count
  of the look before (\<open>last_val\<close> before the first look).\<close>

definition settled :: "nat \<Rightarrow> device \<Rightarrow> nat \<Rightarrow> bool" where
  "settled last_val d k =
     (0 < length (received d k) \<and>
      length (received d k) = (if k = 0 then last_val else length (received d (k - 1))))"

text \<open>
  The stream operations of one call of \<^verbatim>\<open>read\<close>: the entry, then looks at
  \<^verbatim>\<open>in_waiting\<close>, then at most one \<^verbatim>\<open>device.read\<close>, and nothing else.
\<close>

fun looks_then_read :: "event list \<Rightarrow> bool" where
  "looks_then_read [] = True"
| "looks_then_read [DevRead n bs] = True"
| "looks_then_read (DevInWaiting n # es) = looks_then_read es"
| "looks_then_read (e # es) = False"

fun read_cycle :: "event list \<Rightarrow> bool" where
  "read_cycle (CallRead # es) = looks_then_read es"
| "read_cycle es = False"

text \<open>A stream on which only ASCII bytes are buffered or will arrive.\<close>

definition ascii_dev :: "device \<Rightarrow> bool" where
  "ascii_dev d =
     (list_all (\<lambda>b. (of_char b :: nat) < 128) (in_buf d) \<and>
      list_all (list_all (\<lambda>b. (of_char b :: nat) < 128)) (arriving d))"

subsection \<open>Streams for the examples\<close>



definition echo_dev :: device where
  "echo_dev = \<lparr>in_buf = [], arriving = [''INPUT: P'' @ crlf], clock = 0, timeout = 2000,
                warned = [], log = []\<rparr>"

section \<open>Properties of the parser\<close>

lemmas parse_defs = parse_data_def check_lines_def create_dt_def check_status_def token_re_def
  timestamp_re_def status_re_def strptime_def strptime_re_def re_match_def group_def Plus_def
  Opt_def Rep3_def lits_def crlf_def CR_def LF_def is_digit_def is_upper_def is_space_def
  is_numch_def rng_def py_float_def unsigned_float_def digits_val_def digit_val_def
  days_in_month_def is_leap_def cons_hd_def

subsection \<open>The parser on some texts\<close>

lemma parse_servolock:
  "parse_data now ''08/15/22 14:30:05  DEWPT = -40.25  SERVOLOCK'' =
     (Inr \<lparr>dt = \<lparr>year = 2022, month = 8, day = 15, hour = 14, minute = 30, second = 5,
                 microsecond = 0\<rparr>,
           measurements = [''DEWPT''], data = [-40.25], status = ''SERVOLOCK''\<rparr>, [])"
  by (simp add: parse_defs)

lemma parse_no_timestamp:
  "parse_data now ''DEWPT = -40.25  SERVOLOCK'' =
     (Inr \<lparr>dt = now, measurements = [''DEWPT''], data = [-40.25], status = ''SERVOLOCK''\<rparr>,
      [W_local_time])"
  by (simp add: parse_defs)



lemma parse_two:
  "parse_data now ''DEWPT = -40.25  AT = 21.5'' =
     (Inr \<lparr>dt = now, measurements = [''DEWPT'', ''AT''], data = [-40.25, 21.5],
           status = ''UNKNOWN''\<rparr>,
      [W_local_time, W_no_status])"
  by (simp add: parse_defs)


subsection \<open>The exceptions of the parts\<close>

lemma floats_map: "floats ts = Inr vs \<Longrightarrow> map py_float ts = map Inr vs"
  by (induction ts arbitrary: vs) (auto split: sum.splits)

lemma floats_length: "floats ts = Inr vs \<Longrightarrow> length vs = length ts"
  by (induction ts arbitrary: vs) (auto split: sum.splits)

lemma unsigned_float_error: "unsigned_float u = Inl e \<Longrightarrow> e = ValueError FloatText"
  by (auto simp: unsigned_float_def Let_def split: list.splits if_splits)

lemma py_float_error:
  assumes "py_float t = Inl e"
  shows "e = ValueError FloatText"
proof (cases t)
  case Nil
  with assms show ?thesis
    by (simp add: py_float_def)
next
  case (Cons c cs)
  show ?thesis
  proof (cases "c = CHR ''-''")
    case True
    with Cons assms show ?thesis
      by (cases "unsigned_float cs") (auto simp: py_float_def dest: unsigned_float_error)
  next
    case False
    with Cons assms show ?thesis
      by (auto simp: py_float_def dest: unsigned_float_error)
  qed
qed

lemma floats_error: "floats ts = Inl e \<Longrightarrow> e = ValueError FloatText"
  by (induction ts) (auto split: sum.splits dest: py_float_error)


lemma strptime_error: "strptime t = Inl e \<Longrightarrow> e = ValueError TimeData"
  by (auto simp: strptime_def Let_def split: option.splits if_splits prod.splits)

lemma check_lines_error: "fst (check_lines s) = Inl e \<Longrightarrow> e = ValueError NoData"
  by (auto simp: check_lines_def split: if_splits option.splits)

lemma check_lines_warnings: "W_local_time \<notin> set (snd (check_lines s))"
  by (simp add: check_lines_def split: option.splits)

lemma check_status_warnings: "W_local_time \<notin> set (snd (check_status l))"
  by (simp add: check_status_def split: option.splits)

subsection \<open>The parser by cases on the segment and the time stamp\<close>

lemma parse_data_no_line:
  assumes "check_lines s = (Inl e, w1)"
  shows "parse_data now s = (Inl e, w1)"
  using assms by (simp add: parse_data_def)

lemma parse_data_local_time:
  assumes "check_lines s = (Inr l, w1)" and "re_search timestamp_re l = None"
  shows "parse_data now s =
     (if re_findall token_re l = [] then (Inl (ValueError NoData), w1 @ [W_local_time])
      else
        (case floats (map (\<lambda>m. group m 2) (re_findall token_re l)) of
           Inl e \<Rightarrow> (Inl e, w1 @ [W_local_time])
         | Inr vs \<Rightarrow>
             (Inr \<lparr>dt = now, measurements = map (\<lambda>m. group m 1) (re_findall token_re l),
                    data = vs, status = fst (check_status l)\<rparr>,
              w1 @ W_local_time # snd (check_status l))))"
  using assms by (simp add: parse_data_def create_dt_def split: sum.splits)

lemma parse_data_bad_time:
  assumes "check_lines s = (Inr l, w1)" and "re_search timestamp_re l = Some tm"
    and "strptime (group tm 0) = Inl e"
  shows "parse_data now s = (Inl e, w1)"
  using assms by (simp add: parse_data_def create_dt_def)

lemma parse_data_device_time:
  assumes "check_lines s = (Inr l, w1)" and "re_search timestamp_re l = Some tm"
    and "strptime (group tm 0) = Inr t"
  shows "parse_data now s =
     (if re_findall token_re l = [] then (Inl (ValueError NoData), w1)
      else
        (case floats (map (\<lambda>m. group m 2) (re_findall token_re l)) of
           Inl e \<Rightarrow> (Inl e, w1)
         | Inr vs \<Rightarrow>
             (Inr \<lparr>dt = t, measurements = map (\<lambda>m. group m 1) (re_findall token_re l),
                    data = vs, status = fst (check_status l)\<rparr>,
              w1 @ snd (check_status l))))"
  using assms by (simp add: parse_data_def create_dt_def split: sum.splits)

lemma parse_data_error:
  assumes "fst (parse_data now s) = Inl e"
  shows "e = ValueError NoData \<or> e = ValueError TimeData \<or> e = ValueError FloatText"
proof -
  obtain x w1 where cl: "check_lines s = (x, w1)"
    by (cases "check_lines s")
  show ?thesis
  proof (cases x)
    case (Inl e')
    with cl assms check_lines_error [of s e'] show ?thesis
      by (simp add: parse_data_no_line)
  next
    case (Inr l)
    note seg = cl [unfolded Inr]
    show ?thesis
    proof (cases "re_search timestamp_re l")
      case None
      from assms show ?thesis
        unfolding parse_data_local_time [OF seg None]
        by (auto split: if_splits sum.splits dest: floats_error)
    next
      case (Some tm)
      show ?thesis
      proof (cases "strptime (group tm 0)")
        case (Inl e')
        with assms strptime_error [of "group tm 0" e'] show ?thesis
          unfolding parse_data_bad_time [OF seg Some Inl] by simp
      next
        case (Inr t)
        from assms show ?thesis
          unfolding parse_data_device_time [OF seg Some Inr]
          by (auto split: if_splits sum.splits dest: floats_error)
      qed
    qed
  qed
qed

subsection \<open>The claims about the parser\<close>

text \<open>
  C1. The claim: of several segments the parser takes the first that holds a
  \<^verbatim>\<open>NAME = value\<close> token, so a text whose second segment alone holds one gives a
  reading. The code differs: the test in the loop searches the whole text, so the first
  segment is taken as soon as any segment holds a token. On the echo \<^verbatim>\<open>INPUT: P\<close>
  followed by a data line the parser raises the \<open>NoData\<close> error.
\<close>

theorem parse_data_second_segment:
  "parse_data now (''INPUT: P'' @ crlf @ ''08/15/22 14:30:05  DEWPT = -40.25  SERVOLOCK'') =
     (Inl (ValueError NoData), [W_multiple_lines, W_local_time])"
  by (simp add: parse_defs)




text \<open>
  C5, as the claim states it, fails: on a text without a time stamp two calls at different
  local times return different readings.
\<close>

theorem parse_data_clock_counterexample:
  "parse_data clock_a ''DEWPT = -40.25  SERVOLOCK'' \<noteq>
   parse_data clock_b ''DEWPT = -40.25  SERVOLOCK''"
  by (simp add: parse_no_timestamp clock_a_def clock_b_def)

text \<open>
  C5, amended. Two calls on the same text agree on the exception, or on the names, the
  values and the status, and on the warnings, whatever the local times of the calls. They
  agree on everything when the local-time warning is not issued; when it is, the time
  stamp of a reading is the local time of its call.
\<close>

theorem parse_data_clock:
  "map_sum id (\<lambda>r. (measurements r, data r, status r)) (fst (parse_data now1 s)) =
   map_sum id (\<lambda>r. (measurements r, data r, status r)) (fst (parse_data now2 s)) \<and>
   snd (parse_data now1 s) = snd (parse_data now2 s) \<and>
   (W_local_time \<notin> set (snd (parse_data now1 s)) \<longrightarrow> parse_data now1 s = parse_data now2 s) \<and>
   (\<forall>r. W_local_time \<in> set (snd (parse_data now1 s)) \<and> fst (parse_data now1 s) = Inr r \<longrightarrow>
        dt r = now1)"
proof -
  obtain x w1 where cl: "check_lines s = (x, w1)"
    by (cases "check_lines s")
  have w1: "W_local_time \<notin> set w1"
    using check_lines_warnings [of s] cl by simp
  show ?thesis
  proof (cases x)
    case (Inl e)
    with cl show ?thesis
      by (simp add: parse_data_no_line)
  next
    case (Inr l)
    note seg = cl [unfolded Inr]
    show ?thesis
    proof (cases "re_search timestamp_re l")
      case None
      show ?thesis
        unfolding parse_data_local_time [OF seg None]
        by (auto split: sum.splits)
    next
      case (Some tm)
      show ?thesis
      proof (cases "strptime (group tm 0)")
        case (Inl e)
        show ?thesis
          using w1 unfolding parse_data_bad_time [OF seg Some Inl] by simp
      next
        case (Inr t)
        show ?thesis
          using w1 check_status_warnings [of l]
          unfolding parse_data_device_time [OF seg Some Inr]
          by (auto split: sum.splits)
      qed
    qed
  qed
qed

theorem parse_data_clock_witness:
  "W_local_time \<notin> set (snd (parse_data clock_a ''08/15/22 14:30:05  DEWPT = -40.25  SERVOLOCK'')) \<and>
   parse_data clock_a ''08/15/22 14:30:05  DEWPT = -40.25  SERVOLOCK'' =
   parse_data clock_b ''08/15/22 14:30:05  DEWPT = -40.25  SERVOLOCK'' \<and>
   W_local_time \<in> set (snd (parse_data clock_a ''DEWPT = -40.25  SERVOLOCK'')) \<and>
   fst (parse_data clock_a ''DEWPT = -40.25  SERVOLOCK'') =
     Inr \<lparr>dt = clock_a, measurements = [''DEWPT''], data = [-40.25], status = ''SERVOLOCK''\<rparr>"
proof -
  have "W_local_time \<notin> set (snd (parse_data clock_a ''08/15/22 14:30:05  DEWPT = -40.25  SERVOLOCK'')) \<and>
    parse_data clock_a ''08/15/22 14:30:05  DEWPT = -40.25  SERVOLOCK'' =
    parse_data clock_b ''08/15/22 14:30:05  DEWPT = -40.25  SERVOLOCK''"
    using parse_data_clock [of clock_a "''08/15/22 14:30:05  DEWPT = -40.25  SERVOLOCK''" clock_b]
    by (simp add: parse_servolock)
  moreover have "W_local_time \<in> set (snd (parse_data clock_a ''DEWPT = -40.25  SERVOLOCK'')) \<and>
    fst (parse_data clock_a ''DEWPT = -40.25  SERVOLOCK'') =
      Inr \<lparr>dt = clock_a, measurements = [''DEWPT''], data = [-40.25], status = ''SERVOLOCK''\<rparr>"
    using parse_data_clock [of clock_a "''DEWPT = -40.25  SERVOLOCK''" clock_b]
    by (simp add: parse_no_timestamp)
  ultimately show ?thesis
    by blast
qed

text \<open>
  C6. On the text \<^verbatim>\<open>08/15/22 14:30:05  DEWPT = -40.25  SERVOLOCK\<close> the parser returns the
  time stamp 2022-08-15 14:30:05, the names \<^verbatim>\<open>["DEWPT"]\<close>, the values \<^verbatim>\<open>[-40.25]\<close> and the
  status \<^verbatim>\<open>SERVOLOCK\<close>, and issues no warning.
\<close>

theorem parse_data_example:
  "parse_data now ''08/15/22 14:30:05  DEWPT = -40.25  SERVOLOCK'' =
     (Inr \<lparr>dt = \<lparr>year = 2022, month = 8, day = 15, hour = 14, minute = 30, second = 5,
                 microsecond = 0\<rparr>,
           measurements = [''DEWPT''], data = [-40.25], status = ''SERVOLOCK''\<rparr>, [])"
  by (rule parse_servolock)

text \<open>
  C7. In every reading the parser returns, the names and the values have the same length,
  and the name and the value at an index come from the same match of the token pattern in
  the chosen segment.
\<close>

theorem parse_data_parallel:
  assumes "fst (parse_data now s) = Inr r"
  shows "length (measurements r) = length (data r) \<and>
         (\<exists>l. fst (check_lines s) = Inr l \<and>
              measurements r = map (\<lambda>m. group m 1) (re_findall token_re l) \<and>
              map (\<lambda>m. py_float (group m 2)) (re_findall token_re l) = map Inr (data r))"
proof -
  obtain x w1 where cl: "check_lines s = (x, w1)"
    by (cases "check_lines s")
  show ?thesis
  proof (cases x)
    case (Inl e)
    with cl assms show ?thesis
      by (simp add: parse_data_no_line)
  next
    case (Inr l)
    note seg = cl [unfolded Inr]
    have shape: "length (measurements r) = length (data r) \<and>
        measurements r = map (\<lambda>m. group m 1) (re_findall token_re l) \<and>
        map (\<lambda>m. py_float (group m 2)) (re_findall token_re l) = map Inr (data r)"
      if "floats (map (\<lambda>m. group m 2) (re_findall token_re l)) = Inr vs"
        and "measurements r = map (\<lambda>m. group m 1) (re_findall token_re l)"
        and "data r = vs" for vs
      using that floats_map [OF that(1)] floats_length [OF that(1)] by (simp add: comp_def)
    have "length (measurements r) = length (data r) \<and>
        measurements r = map (\<lambda>m. group m 1) (re_findall token_re l) \<and>
        map (\<lambda>m. py_float (group m 2)) (re_findall token_re l) = map Inr (data r)"
    proof (cases "re_search timestamp_re l")
      case None
      from assms show ?thesis
        unfolding parse_data_local_time [OF seg None]
        by (auto split: if_splits sum.splits dest: floats_map floats_length simp: comp_def)
    next
      case (Some tm)
      show ?thesis
      proof (cases "strptime (group tm 0)")
        case (Inl e)
        from assms show ?thesis
          unfolding parse_data_bad_time [OF seg Some Inl] by simp
      next
        case (Inr t)
        from assms show ?thesis
          unfolding parse_data_device_time [OF seg Some Inr]
          by (auto split: if_splits sum.splits dest: floats_map floats_length simp: comp_def)
      qed
    qed
    then show ?thesis
      using seg by (intro conjI exI [where x = l]) auto
  qed
qed

theorem parse_data_parallel_witness:
  "fst (parse_data clock_a ''DEWPT = -40.25  AT = 21.5'') =
     Inr \<lparr>dt = clock_a, measurements = [''DEWPT'', ''AT''], data = [-40.25, 21.5],
          status = ''UNKNOWN''\<rparr> \<and>
   length [''DEWPT'', ''AT''] = length [-40.25, 21.5 :: rat]"
  using parse_data_parallel [of clock_a "''DEWPT = -40.25  AT = 21.5''"
      "\<lparr>dt = clock_a, measurements = [''DEWPT'', ''AT''], data = [-40.25, 21.5],
        status = ''UNKNOWN''\<rparr>"]
  by (simp add: parse_two)
section \<open>Properties of the polling logger\<close>

lemma parse_all_total: "\<exists>rs. parse_all now ds = Inr rs"
proof (induction ds)
  case Nil
  then show ?case by simp
next
  case (Cons d ds)
  then obtain rs where rs: "parse_all now ds = Inr rs"
    by blast
  show ?case
  proof (cases "fst (parse_data now d)")
    case (Inl e)
    with parse_data_error [of now d e] rs show ?thesis
      by auto
  next
    case (Inr r)
    with rs show ?thesis
      by simp
  qed
qed

lemma poll_total: "\<exists>rs. poll tk = Inr rs"
  by (simp add: poll_def parse_all_total)

lemma poll_quiet_tick: "poll quiet_tick = Inr []"
  by (simp add: poll_def quiet_tick_def parse_defs)

lemma poll_data_tick:
  "poll data_tick =
     Inr [\<lparr>dt = \<lparr>year = 2022, month = 8, day = 15, hour = 14, minute = 30, second = 5,
                  microsecond = 0\<rparr>,
           measurements = [''DEWPT''], data = [-40.25], status = ''SERVOLOCK''\<rparr>]"
  by (simp add: poll_def data_tick_def CR_def LF_def cons_hd_def parse_servolock)

lemma priming_quiet:
  assumes "phase st = Priming" and "history st = []" and "poll tk = Inr []" and "tries st \<le> 2"
  shows "cycle t_stop st tk = st\<lparr>tries := Suc (tries st)\<rparr>"
  using assms by (simp add: cycle_def priming_cycle_def)

lemma priming_exhausted:
  assumes "phase st = Priming" and "2 < tries st"
  shows "phase (cycle t_stop st tk) = Stopped (Failed (IOError NoResponse))"
  using assms poll_total [of tk] by (auto simp: cycle_def priming_cycle_def)






subsection \<open>The claims about the polling logger\<close>




text \<open>
  C3. The claim: three consecutive empty cycles before any reading stop the session with
  \<open>NoResponse\<close>. The code differs: it tests the counter before adding to it, so after three
  empty cycles the session is still priming and polls a fourth time; it stops with
  \<open>NoResponse\<close> at the end of that fourth cycle, whatever the cycle read.
\<close>

theorem priming_three_empty:
  assumes "poll t1 = Inr []" and "poll t2 = Inr []" and "poll t3 = Inr []"
  shows "log_data t_stop [t1, t2, t3] = \<lparr>history = [], tries = 3, phase = Priming\<rparr> \<and>
         phase (log_data t_stop [t1, t2, t3, t4]) = Stopped (Failed (IOError NoResponse))"
proof -
  have three: "log_data t_stop [t1, t2, t3] = \<lparr>history = [], tries = 3, phase = Priming\<rparr>"
    using assms by (simp add: log_data_def start_def cycle_def priming_cycle_def)
  have "log_data t_stop [t1, t2, t3, t4] = cycle t_stop (log_data t_stop [t1, t2, t3]) t4"
    by (simp add: log_data_def)
  with three priming_exhausted [of "log_data t_stop [t1, t2, t3]" t_stop t4] show ?thesis
    by simp
qed

theorem priming_three_empty_witness:
  "poll quiet_tick = Inr [] \<and>
   log_data None [quiet_tick, quiet_tick, quiet_tick] =
     \<lparr>history = [], tries = 3, phase = Priming\<rparr> \<and>
   poll data_tick =
     Inr [\<lparr>dt = \<lparr>year = 2022, month = 8, day = 15, hour = 14, minute = 30, second = 5,
                  microsecond = 0\<rparr>,
           measurements = [''DEWPT''], data = [-40.25], status = ''SERVOLOCK''\<rparr>] \<and>
   phase (log_data None [quiet_tick, quiet_tick, quiet_tick, data_tick]) =
     Stopped (Failed (IOError NoResponse))"
  using priming_three_empty [OF poll_quiet_tick poll_quiet_tick poll_quiet_tick, of None data_tick]
    poll_quiet_tick poll_data_tick
  by simp

section \<open>Properties of the transport\<close>

subsection \<open>Stripping\<close>




subsection \<open>The loop of \<^verbatim>\<open>read\<close>\<close>

lemma in_waiting_simps [simp]:
  "fst (dev_in_waiting d) = length (in_buf d)"
  "in_buf (snd (dev_in_waiting d)) = in_buf d"
  "arriving (snd (dev_in_waiting d)) = arriving d"
  "clock (snd (dev_in_waiting d)) = clock d"
  "warned (snd (dev_in_waiting d)) = warned d"
  "log (snd (dev_in_waiting d)) = log d @ [DevInWaiting (length (in_buf d))]"
  by (simp_all add: dev_in_waiting_def)

lemma sleep50_simps [simp]:
  "clock (sleep50 d) = clock d + 50"
  "warned (sleep50 d) = warned d"
  "log (sleep50 d) = log d"
  by (simp_all add: sleep50_def)

lemma dev_read_simps [simp]:
  "fst (dev_read n d) = take n (in_buf d)"
  "in_buf (snd (dev_read n d)) = drop n (in_buf d)"
  "arriving (snd (dev_read n d)) = arriving d"
  "warned (snd (dev_read n d)) = warned d"
  "log (snd (dev_read n d)) = log d @ [DevRead n (take n (in_buf d))]"
  by (simp_all add: dev_read_def)


lemma received_0 [simp]: "received d 0 = in_buf d"
  by (simp add: received_def)



lemma read_loop_stop:
  assumes "\<not> clock d < t_stop"
  shows "read_loop t_stop last_val d = (None, d)"
  using assms by (subst read_loop.simps) simp

lemma read_loop_break:
  assumes "clock d < t_stop" and "0 < length (in_buf d)" and "length (in_buf d) = last_val"
  shows "read_loop t_stop last_val d =
     (Some (in_buf d), snd (dev_read (length (in_buf d)) (snd (dev_in_waiting d))))"
  using assms by (subst read_loop.simps) auto

lemma read_loop_again:
  assumes "clock d < t_stop" and "\<not> (0 < length (in_buf d) \<and> length (in_buf d) = last_val)"
  shows "read_loop t_stop last_val d =
     read_loop t_stop (length (in_buf d)) (sleep50 (snd (dev_in_waiting d)))"
  using assms by (subst read_loop.simps) auto



lemma read_loop_log:
  "\<exists>es. log (snd (read_loop t_stop last_val d)) = log d @ es \<and> looks_then_read es"
proof (induction t_stop last_val d rule: read_loop.induct)
  case (1 t_stop last_val d)
  show ?case
  proof (cases "clock d < t_stop")
    case False
    then show ?thesis
      by (simp add: read_loop_stop)
  next
    case True
    show ?thesis
    proof (cases "0 < length (in_buf d) \<and> length (in_buf d) = last_val")
      case stable: True
      then have "log (snd (read_loop t_stop last_val d)) =
          log d @ [DevInWaiting (length (in_buf d)),
                   DevRead (length (in_buf d)) (take (length (in_buf d)) (in_buf d))]"
        using read_loop_break [OF True stable [THEN conjunct1] stable [THEN conjunct2]]
        by simp
      then show ?thesis
        by simp
    next
      case False
      have cond': "\<not> (0 < fst (dev_in_waiting d) \<and> fst (dev_in_waiting d) = last_val)"
        unfolding in_waiting_simps(1) by (rule False)
      from "1.IH" [OF True cond'] obtain es where
        "log (snd (read_loop t_stop (fst (dev_in_waiting d)) (sleep50 (snd (dev_in_waiting d))))) =
           log (sleep50 (snd (dev_in_waiting d))) @ es" and "looks_then_read es"
        by blast
      then have "log (snd (read_loop t_stop last_val d)) =
          log d @ DevInWaiting (length (in_buf d)) # es \<and>
          looks_then_read (DevInWaiting (length (in_buf d)) # es)"
        by (simp add: read_loop_again [OF True False])
      then show ?thesis
        by blast
    qed
  qed
qed

lemma read_log: "\<exists>es. log (snd (read d)) = log d @ es \<and> read_cycle es"
proof -
  let ?d = "d\<lparr>log := log d @ [CallRead]\<rparr>"
  obtain es where es: "log (snd (read_loop (clock d + timeout d) 0 ?d)) = log ?d @ es"
    "looks_then_read es"
    using read_loop_log by blast
  obtain r d' where loop: "read_loop (clock d + timeout d) 0 ?d = (r, d')"
    by (cases "read_loop (clock d + timeout d) 0 ?d")
  with es(1) have "log (snd (read d)) = log d @ CallRead # es"
    by (cases r) (simp_all add: read_def warn_def)
  with es(2) show ?thesis
    by simp
qed

lemma received_log [simp]: "received (d\<lparr>log := l\<rparr>) k = received d k"
  by (simp add: received_def)

lemma settled_log [simp]: "settled last_val (d\<lparr>log := l\<rparr>) k = settled last_val d k"
  by (simp add: settled_def)

subsection \<open>Decoding ASCII\<close>

lemma utf8_decode_ascii: "list_all (\<lambda>b. b < 128) bs \<Longrightarrow> utf8_decode bs = Some bs"
  by (induction bs) simp_all

lemma decode_ascii:
  assumes "list_all (\<lambda>b. (of_char b :: nat) < 128) bs"
  shows "decode bs = Inr bs"
proof -
  from assms have small: "list_all (\<lambda>b. b < 128) (map of_char bs :: nat list)"
    by (simp add: list_all_iff)
  then have "list_all (\<lambda>cp. cp < 256) (map of_char bs :: nat list)"
    by (auto simp: list_all_iff)
  moreover have "map char_of (map of_char bs :: nat list) = bs"
    by (simp add: comp_def)
  ultimately show ?thesis
    using utf8_decode_ascii [OF small] by (simp add: decode_def)
qed

lemma decode_empty: "decode [] = Inr []"
  by (simp add: decode_def)

lemma ascii_dev_steps [simp]:
  "ascii_dev d \<Longrightarrow> ascii_dev (snd (dev_in_waiting d))"
  "ascii_dev d \<Longrightarrow> ascii_dev (sleep50 d)"
  "ascii_dev d \<Longrightarrow> ascii_dev (snd (dev_read n d))"
  "ascii_dev d \<Longrightarrow> ascii_dev (dev_write bs d)"
  "ascii_dev d \<Longrightarrow> ascii_dev (warn w d)"
  "ascii_dev d \<Longrightarrow> ascii_dev (d\<lparr>log := l\<rparr>)"
proof -
  assume a: "ascii_dev d"
  show "ascii_dev (snd (dev_in_waiting d))"
    using a by (simp add: ascii_dev_def)
  show "ascii_dev (sleep50 d)"
    using a by (cases "arriving d") (simp_all add: ascii_dev_def sleep50_def)
  show "ascii_dev (snd (dev_read n d))"
    using a by (auto simp: ascii_dev_def list_all_iff dest: in_set_dropD)
  show "ascii_dev (dev_write bs d)"
    using a by (simp add: ascii_dev_def dev_write_def)
  show "ascii_dev (warn w d)"
    using a by (simp add: ascii_dev_def warn_def)
  show "ascii_dev (d\<lparr>log := l\<rparr>)"
    using a by (simp add: ascii_dev_def)
qed

lemma read_loop_ascii:
  assumes "ascii_dev d"
  shows "ascii_dev (snd (read_loop t_stop last_val d)) \<and>
         (\<forall>bs. fst (read_loop t_stop last_val d) = Some bs \<longrightarrow>
               list_all (\<lambda>b. (of_char b :: nat) < 128) bs)"
  using assms
proof (induction t_stop last_val d rule: read_loop.induct)
  case (1 t_stop last_val d)
  show ?case
  proof (cases "clock d < t_stop")
    case False
    with "1.prems" show ?thesis
      by (simp add: read_loop_stop)
  next
    case True
    show ?thesis
    proof (cases "0 < length (in_buf d) \<and> length (in_buf d) = last_val")
      case stable: True
      from "1.prems" have "list_all (\<lambda>b. (of_char b :: nat) < 128) (in_buf d)"
        by (simp add: ascii_dev_def)
      with "1.prems" show ?thesis
        using read_loop_break [OF True stable [THEN conjunct1] stable [THEN conjunct2]]
        by simp
    next
      case False
      have cond': "\<not> (0 < fst (dev_in_waiting d) \<and> fst (dev_in_waiting d) = last_val)"
        unfolding in_waiting_simps(1) by (rule False)
      from "1.prems" have "ascii_dev (sleep50 (snd (dev_in_waiting d)))"
        by simp
      from "1.IH" [OF True cond' this] show ?thesis
        by (simp add: read_loop_again [OF True False])
    qed
  qed
qed

lemma read_ascii:
  assumes "ascii_dev d"
  shows "(\<exists>t. fst (read d) = Inr t) \<and> ascii_dev (snd (read d))"
proof -
  let ?d = "d\<lparr>log := log d @ [CallRead]\<rparr>"
  obtain r d' where loop: "read_loop (clock d + timeout d) 0 ?d = (r, d')"
    by (cases "read_loop (clock d + timeout d) 0 ?d")
  from assms have "ascii_dev ?d"
    by simp
  from read_loop_ascii [OF this, of "clock d + timeout d" 0] loop
  have d': "ascii_dev d'" and r: "\<forall>bs. r = Some bs \<longrightarrow> list_all (\<lambda>b. (of_char b :: nat) < 128) bs"
    by simp_all
  show ?thesis
  proof (cases r)
    case None
    with loop d' show ?thesis
      by (simp add: read_def decode_empty)
  next
    case (Some bs)
    with r have "decode bs = Inr bs"
      by (simp add: decode_ascii)
    with Some loop d' show ?thesis
      by (simp add: read_def)
  qed
qed

subsection \<open>The log of \<^verbatim>\<open>write\<close> and of the helpers\<close>

lemma write_chars_ascii:
  "ascii_dev d \<Longrightarrow>
     fst (write_chars command d) = Inr () \<and> ascii_dev (snd (write_chars command d))"
proof (induction command arbitrary: d)
  case Nil
  then show ?case by simp
next
  case (Cons c cs)
  let ?d = "dev_write (encode_char c) d"
  from Cons.prems have "ascii_dev ?d"
    by simp
  from read_ascii [OF this] obtain t where t: "fst (read ?d) = Inr t"
    and a: "ascii_dev (snd (read ?d))"
    by blast
  from Cons.IH [OF a] t show ?case
    by (cases "read ?d") simp
qed

lemma write_chars_log:
  "fst (write_chars command d) = Inr () \<Longrightarrow>
     \<exists>cycles. length cycles = length command \<and> (\<forall>c \<in> set cycles. read_cycle c) \<and>
       log (snd (write_chars command d)) =
         log d @ concat (map2 (\<lambda>ch c. DevWrite (encode_char ch) # c) command cycles)"
proof (induction command arbitrary: d)
  case Nil
  then show ?case by simp
next
  case (Cons c cs)
  let ?d = "dev_write (encode_char c) d"
  obtain r d' where rd: "read ?d = (r, d')"
    by (cases "read ?d")
  from read_log [of ?d] rd obtain es where es: "log d' = log ?d @ es" "read_cycle es"
    by auto
  from Cons.prems rd obtain echo where echo: "r = Inr echo"
    by (cases r) simp_all
  with Cons.prems rd have "fst (write_chars cs d') = Inr ()"
    by simp
  from Cons.IH [OF this] obtain cycles where cycles: "length cycles = length cs"
    "\<forall>c \<in> set cycles. read_cycle c"
    "log (snd (write_chars cs d')) =
       log d' @ concat (map2 (\<lambda>ch c. DevWrite (encode_char ch) # c) cs cycles)"
    by blast
  have "length (es # cycles) = length (c # cs) \<and> (\<forall>c \<in> set (es # cycles). read_cycle c) \<and>
      log (snd (write_chars (c # cs) d)) =
        log d @ concat (map2 (\<lambda>ch c. DevWrite (encode_char ch) # c) (c # cs) (es # cycles))"
    using cycles es rd echo by (simp add: dev_write_def)
  then show ?case
    by blast
qed






subsection \<open>The claims about the transport\<close>



text \<open>
  C9. When \<^verbatim>\<open>write\<close> returns, the stream has seen, for each character of the command in
  turn, a write of that character followed by the operations of exactly one call of
  \<^verbatim>\<open>read\<close>, and then a single write of carriage return and line feed, with nothing after
  it. It returns whenever the bytes the instrument sends are ASCII.
\<close>

theorem write_command_trace:
  "(ascii_dev d \<longrightarrow> fst (write_command command d) = Inr ()) \<and>
   (fst (write_command command d) = Inr () \<longrightarrow>
      (\<exists>cycles. length cycles = length command \<and> (\<forall>c \<in> set cycles. read_cycle c) \<and>
         log (snd (write_command command d)) =
           log d @ concat (map2 (\<lambda>ch c. DevWrite (encode_char ch) # c) command cycles) @
           [DevWrite crlf]))"
proof -
  obtain r d' where w: "write_chars command d = (r, d')"
    by (cases "write_chars command d")
  have "fst (write_command command d) = Inr ()" if "ascii_dev d"
    using write_chars_ascii [OF that, of command] w by (cases r) (simp_all add: write_command_def)
  moreover have "\<exists>cycles. length cycles = length command \<and> (\<forall>c \<in> set cycles. read_cycle c) \<and>
         log (snd (write_command command d)) =
           log d @ concat (map2 (\<lambda>ch c. DevWrite (encode_char ch) # c) command cycles) @
           [DevWrite crlf]"
    if ok: "fst (write_command command d) = Inr ()"
  proof -
    from ok w have "fst (write_chars command d) = Inr ()"
      by (cases r) (simp_all add: write_command_def)
    from write_chars_log [OF this] obtain cycles where
      "length cycles = length command" "\<forall>c \<in> set cycles. read_cycle c"
      "log (snd (write_chars command d)) =
         log d @ concat (map2 (\<lambda>ch c. DevWrite (encode_char ch) # c) command cycles)"
      by blast
    moreover from this(3) w ok have "log (snd (write_command command d)) =
        log d @ concat (map2 (\<lambda>ch c. DevWrite (encode_char ch) # c) command cycles) @
        [DevWrite crlf]"
      by (cases r) (simp_all add: write_command_def dev_write_def)
    ultimately show ?thesis
      by blast
  qed
  ultimately show ?thesis
    by blast
qed

theorem write_command_trace_witness:
  "ascii_dev echo_dev \<and>
   fst (write_command ''P'' echo_dev) = Inr () \<and>
   log (snd (write_command ''P'' echo_dev)) =
     [DevWrite ''P'', CallRead, DevInWaiting 0, DevInWaiting 10, DevInWaiting 10,
      DevRead 10 (''INPUT: P'' @ crlf), DevWrite crlf]"
proof -
  have a: "ascii_dev echo_dev"
    by (simp add: ascii_dev_def echo_dev_def crlf_def CR_def LF_def)
  have "decode (''INPUT: P'' @ crlf) = Inr (''INPUT: P'' @ crlf)"
    by (rule decode_ascii) (simp add: crlf_def CR_def LF_def)
  then have "log (snd (write_command ''P'' echo_dev)) =
     [DevWrite ''P'', CallRead, DevInWaiting 0, DevInWaiting 10, DevInWaiting 10,
      DevRead 10 (''INPUT: P'' @ crlf), DevWrite crlf]"
    by (simp add: write_command_def read_def read_loop.simps dev_write_def dev_in_waiting_def
        dev_read_def sleep50_def encode_char_def echo_dev_def crlf_def)
  with a write_command_trace [of echo_dev "''P''"] show ?thesis
    by simp
qed



end
